theory Spec2Isabelle
  imports Complex_Main
begin

section \<open>Word vectors: lookup, nearest neighbours and analogies\<close>

text \<open>
  The notebook \<^verbatim>\<open>glove-word-vectors.ipynb\<close> keeps the loaded vectors in three
  globals, \<^verbatim>\<open>wv_dict, wv_arr, wv_size = load_word_vectors('.', 'glove.6B', 100)\<close>,
  and defines \<^verbatim>\<open>get_word\<close>, \<^verbatim>\<open>closest\<close>, \<^verbatim>\<open>print_tuples\<close> and
  \<^verbatim>\<open>analogy\<close> over them. The spec calls them \<open>lookup\<close>, \<open>nearestTo\<close>,
  the presentation interface and \<open>analogy\<close>.

  Modelling decisions.
  \<^item> A 1-D tensor is the list of its components. The components are float32 numbers
    and torch does the arithmetic on them, so the component type \<open>'a\<close>, the type \<open>'d\<close>
    of a distance and the three operations the notebook uses (the difference and the
    sum of two components, the 2-norm of a tensor) are parameters of the model: every
    function that computes takes them as its first argument, and a theorem stated for
    every such argument holds for the rounding, overflowing operations of float32.
    Distances are sorted, so \<open>'d\<close> is linearly ordered; NaN, which no order places, is
    outside the model (no operation of the notebook yields it on finite components).
  \<^item> \<^verbatim>\<open>wv_dict\<close> is a Python dict from words to row numbers. It is an association
    list in the dict's iteration order; \<^verbatim>\<open>wv_dict[word]\<close> is \<open>map_of\<close>.
  \<^item> \<^verbatim>\<open>wv_arr\<close> is a 2-D tensor: the list of its rows.
  \<^item> Every exception of the source is a value of \<open>error\<close>; a function that can raise
    returns \<open>error + 'a\<close>.
  \<^item> Standard output is a field of the state: the list of lines printed so far. A
    line is kept as the values it is formatted from.
\<close>

subsection \<open>Data model\<close>

datatype error = KeyError | IndexError | RuntimeError

record ('a, 'd) arith =
  fsub :: "'a \<Rightarrow> 'a \<Rightarrow> 'a"
  fadd :: "'a \<Rightarrow> 'a \<Rightarrow> 'a"
  norm2 :: "'a list \<Rightarrow> 'd"

datatype 'd line = Header string string string | Entry string 'd

record ('a, 'd) world =
  wv_dict :: "(string \<times> nat) list"
  wv_arr :: "'a list list"
  wv_size :: nat
  stdout :: "'d line list"

text \<open>
  What the loader is to return: the dict has each word once (it is a dict), every row
  number indexes a row of \<^verbatim>\<open>wv_arr\<close>, and every row has \<^verbatim>\<open>wv_size\<close> components
  (it is a 2-D tensor). The loader is torchtext's and the notebook checks none of this.
\<close>

definition wf_table :: "('a, 'd) world \<Rightarrow> bool" where
  "wf_table s \<longleftrightarrow>
     distinct (map fst (wv_dict s)) \<and>
     list_all (\<lambda>i. i < length (wv_arr s)) (map snd (wv_dict s)) \<and>
     list_all (\<lambda>v. length v = wv_size s) (wv_arr s)"

definition vocabulary :: "('a, 'd) world \<Rightarrow> string list" where
  "vocabulary s = map fst (wv_dict s)"

subsection \<open>Python and torch primitives\<close>

text \<open>\<^verbatim>\<open>d[k]\<close> on a dict raises KeyError for a missing key.\<close>

definition dict_getitem :: "(string \<times> nat) list \<Rightarrow> string \<Rightarrow> error + nat" where
  "dict_getitem d k = (case map_of d k of None \<Rightarrow> Inl KeyError | Some i \<Rightarrow> Inr i)"

text \<open>\<^verbatim>\<open>a[i]\<close> on a 2-D tensor selects row \<open>i\<close> and raises out of range.\<close>

definition arr_getitem :: "'a list list \<Rightarrow> nat \<Rightarrow> error + 'a list" where
  "arr_getitem a i = (if i < length a then Inr (a ! i) else Inl IndexError)"

text \<open>
  An elementwise operation of torch on two 1-D tensors broadcasts: the sizes must be
  equal, or one of them must be 1, and then the single component is paired with every
  component of the other tensor. Any other pair of sizes raises a RuntimeError.
\<close>

definition broadcastable :: "nat \<Rightarrow> nat \<Rightarrow> bool" where
  "broadcastable m n \<longleftrightarrow> m = n \<or> m = 1 \<or> n = 1"

definition broadcast_map :: "('a \<Rightarrow> 'a \<Rightarrow> 'a) \<Rightarrow> 'a list \<Rightarrow> 'a list \<Rightarrow> 'a list" where
  "broadcast_map f a b =
     (if length a = length b then map2 f a b
      else if length a = 1 then map (f (hd a)) b
      else map (\<lambda>x. f x (hd b)) a)"

definition broadcast2 :: "('a \<Rightarrow> 'a \<Rightarrow> 'a) \<Rightarrow> 'a list \<Rightarrow> 'a list \<Rightarrow> error + 'a list" where
  "broadcast2 f a b =
     (if broadcastable (length a) (length b) then Inr (broadcast_map f a b)
      else Inl RuntimeError)"

text \<open>\<^verbatim>\<open>a - b\<close> and \<^verbatim>\<open>a + b\<close> on tensors.\<close>

definition tensor_sub :: "('a, 'd) arith \<Rightarrow> 'a list \<Rightarrow> 'a list \<Rightarrow> error + 'a list" where
  "tensor_sub A a b = broadcast2 (fsub A) a b"

definition tensor_add :: "('a, 'd) arith \<Rightarrow> 'a list \<Rightarrow> 'a list \<Rightarrow> error + 'a list" where
  "tensor_add A a b = broadcast2 (fadd A) a b"

text \<open>\<^verbatim>\<open>torch.dist(a, b)\<close> is the 2-norm of \<^verbatim>\<open>a - b\<close>.\<close>

definition torch_dist :: "('a, 'd) arith \<Rightarrow> 'a list \<Rightarrow> 'a list \<Rightarrow> error + 'd" where
  "torch_dist A a b =
     (case tensor_sub A a b of
        Inl e \<Rightarrow> Inl e
      | Inr t \<Rightarrow> Inr (norm2 A t))"

text \<open>
  The slice \<^verbatim>\<open>xs[:n]\<close>: the first \<open>n\<close> elements for \<open>n \<ge> 0\<close>; for a negative
  \<open>n\<close> the bound counts from the end, so the last \<open>-n\<close> elements are dropped.
\<close>

definition slice_upto :: "'b list \<Rightarrow> int \<Rightarrow> 'b list" where
  "slice_upto xs n =
     (if 0 \<le> n then take (nat n) xs else take (nat (int (length xs) + n)) xs)"

subsection \<open>The notebook's functions\<close>

text \<open>\<^verbatim>\<open>def get_word(word): return wv_arr[wv_dict[word]]\<close>\<close>

definition get_word :: "('a, 'd) world \<Rightarrow> string \<Rightarrow> error + 'a list" where
  "get_word s word =
     (case dict_getitem (wv_dict s) word of
        Inl e \<Rightarrow> Inl e
      | Inr i \<Rightarrow> arr_getitem (wv_arr s) i)"

text \<open>
  \<^verbatim>\<open>all_dists = [(w, torch.dist(d, get_word(w))) for w in wv_dict]\<close>: the
  comprehension goes through the dict's keys in order and stops at the first exception.
\<close>

fun all_dists_loop ::
  "('a, 'd) arith \<Rightarrow> ('a, 'd) world \<Rightarrow> 'a list \<Rightarrow> string list \<Rightarrow> error + (string \<times> 'd) list" where
  "all_dists_loop A s d [] = Inr []"
| "all_dists_loop A s d (w # ws) =
     (case get_word s w of
        Inl e \<Rightarrow> Inl e
      | Inr v \<Rightarrow>
          (case torch_dist A d v of
             Inl e \<Rightarrow> Inl e
           | Inr x \<Rightarrow>
               (case all_dists_loop A s d ws of
                  Inl e \<Rightarrow> Inl e
                | Inr r \<Rightarrow> Inr ((w, x) # r))))"

definition all_dists ::
  "('a, 'd) arith \<Rightarrow> ('a, 'd) world \<Rightarrow> 'a list \<Rightarrow> error + (string \<times> 'd) list" where
  "all_dists A s d = all_dists_loop A s d (map fst (wv_dict s))"

text \<open>
  \<^verbatim>\<open>return sorted(all_dists, key=lambda t: t[1])[:n]\<close>. Python's \<^verbatim>\<open>sorted\<close> is
  stable, and so is \<open>sort_key\<close>. The source's default is \<open>n = 10\<close>.
\<close>

definition closest ::
  "('a, 'd::linorder) arith \<Rightarrow> ('a, 'd) world \<Rightarrow> 'a list \<Rightarrow> int \<Rightarrow> error + (string \<times> 'd) list" where
  "closest A s d n =
     (case all_dists A s d of
        Inl e \<Rightarrow> Inl e
      | Inr xs \<Rightarrow> Inr (slice_upto (sort_key snd xs) n))"

text \<open>\<^verbatim>\<open>print_tuples\<close> prints one line for each tuple, in order.\<close>

definition print_tuples :: "(string \<times> 'd) list \<Rightarrow> ('a, 'd) world \<Rightarrow> ('a, 'd) world" where
  "print_tuples tuples s = s\<lparr>stdout := stdout s @ map (\<lambda>t. Entry (fst t) (snd t)) tuples\<rparr>"

text \<open>
  The argument of \<^verbatim>\<open>closest\<close> in \<^verbatim>\<open>analogy\<close>:
  \<^verbatim>\<open>get_word(w2) - get_word(w1) + get_word(w3)\<close>, evaluated left to right.
\<close>

definition analogy_query ::
  "('a, 'd) arith \<Rightarrow> ('a, 'd) world \<Rightarrow> string \<Rightarrow> string \<Rightarrow> string \<Rightarrow> error + 'a list" where
  "analogy_query A s w1 w2 w3 =
     (case get_word s w2 of
        Inl e \<Rightarrow> Inl e
      | Inr v2 \<Rightarrow>
          (case get_word s w1 of
             Inl e \<Rightarrow> Inl e
           | Inr v1 \<Rightarrow>
               (case tensor_sub A v2 v1 of
                  Inl e \<Rightarrow> Inl e
                | Inr t \<Rightarrow>
                    (case get_word s w3 of
                       Inl e \<Rightarrow> Inl e
                     | Inr v3 \<Rightarrow> tensor_add A t v3))))"

text \<open>
  The list \<^verbatim>\<open>closest_words[:n]\<close> that \<^verbatim>\<open>analogy\<close> hands to \<^verbatim>\<open>print_tuples\<close>:
  \<^verbatim>\<open>closest\<close> is called with its default \<open>n = 10\<close>, the given words are filtered
  out when \<^verbatim>\<open>filter_given\<close>, then the list is sliced.
\<close>

definition analogy_words ::
  "('a, 'd::linorder) arith \<Rightarrow> ('a, 'd) world \<Rightarrow> string \<Rightarrow> string \<Rightarrow> string \<Rightarrow> int \<Rightarrow> bool \<Rightarrow>
     error + (string \<times> 'd) list" where
  "analogy_words A s w1 w2 w3 n filter_given =
     (case analogy_query A s w1 w2 w3 of
        Inl e \<Rightarrow> Inl e
      | Inr q \<Rightarrow>
          (case closest A s q 10 of
             Inl e \<Rightarrow> Inl e
           | Inr closest_words \<Rightarrow>
               Inr (slice_upto
                     (if filter_given
                      then filter (\<lambda>t. fst t \<notin> set [w1, w2, w3]) closest_words
                      else closest_words) n)))"

text \<open>
  \<^verbatim>\<open>analogy\<close> prints the header, computes the list and prints it; it returns nothing.
  An exception leaves the header printed.
\<close>

definition analogy ::
  "('a, 'd::linorder) arith \<Rightarrow> string \<Rightarrow> string \<Rightarrow> string \<Rightarrow> int \<Rightarrow> bool \<Rightarrow> ('a, 'd) world \<Rightarrow>
     (error + unit) \<times> ('a, 'd) world" where
  "analogy A w1 w2 w3 n filter_given s =
     (let s1 = s\<lparr>stdout := stdout s @ [Header w1 w2 w3]\<rparr> in
      case analogy_words A s1 w1 w2 w3 n filter_given of
        Inl e \<Rightarrow> (Inl e, s1)
      | Inr r \<Rightarrow> (Inr (), print_tuples r s1))"

subsection \<open>Exact arithmetic\<close>

text \<open>
  The arithmetic of the real numbers: components and distances are reals, nothing is
  rounded, and the 2-norm is the square root of the sum of the squares. Float32 agrees
  with it wherever every intermediate result is a float32 number, as on the small
  integers of the fixtures below.
\<close>

definition exact :: "(real, real) arith" where
  "exact = \<lparr>fsub = (\<lambda>x y. x - y), fadd = (\<lambda>x y. x + y),
            norm2 = (\<lambda>xs. sqrt (sum_list (map (\<lambda>x. \<bar>x\<bar>\<^sup>2) xs)))\<rparr>"

subsection \<open>The spec's vocabulary\<close>

text \<open>
  The spec's \<open>entries()\<close>: the (word, vector) pairs of the table, in the dict's
  iteration order.
\<close>

definition entries :: "('a, 'd) world \<Rightarrow> (string \<times> 'a list) list" where
  "entries s = map (\<lambda>p. (fst p, wv_arr s ! snd p)) (wv_dict s)"

text \<open>The spec's distance, in its words: \<open>sqrt(sum_i (query_i - vector_i)^2)\<close>.\<close>

definition spec_distance :: "real list \<Rightarrow> real list \<Rightarrow> real" where
  "spec_distance q v = sqrt (\<Sum>i<length q. (q ! i - v ! i)\<^sup>2)"

text \<open>
  What \<^verbatim>\<open>torch.dist(q, v)\<close> returns when it returns: the 2-norm of the elementwise
  difference, in the tensors' arithmetic.
\<close>

definition dist_value :: "('a, 'd) arith \<Rightarrow> 'a list \<Rightarrow> 'a list \<Rightarrow> 'd" where
  "dist_value A q v = norm2 A (broadcast_map (fsub A) q v)"

text \<open>
  The spec's algorithm for \<open>nearestTo\<close>, in its words, for a distance \<open>dst\<close>: the
  distance to every entry, all (word, distance) pairs collected, sorted ascending by
  distance (stable), truncated to the first \<open>n\<close>.
\<close>

definition spec_pairs ::
  "('a list \<Rightarrow> 'a list \<Rightarrow> 'd) \<Rightarrow> ('a, 'd) world \<Rightarrow> 'a list \<Rightarrow> (string \<times> 'd) list" where
  "spec_pairs dst s q = map (\<lambda>e. (fst e, dst q (snd e))) (entries s)"

definition spec_nearestTo ::
  "('a list \<Rightarrow> 'a list \<Rightarrow> 'd::linorder) \<Rightarrow> ('a, 'd) world \<Rightarrow> 'a list \<Rightarrow> int \<Rightarrow> (string \<times> 'd) list" where
  "spec_nearestTo dst s q n = take (nat n) (sort_key snd (spec_pairs dst s q))"

text \<open>The lines a call has added to standard output.\<close>

definition printed :: "('a, 'd) world \<Rightarrow> ('a, 'd) world \<Rightarrow> 'd line list" where
  "printed s s' = drop (length (stdout s)) (stdout s')"

subsection \<open>Fixture tables\<close>

text \<open>Four words on a line; \<open>b\<close> and \<open>c\<close> have the same vector.\<close>

definition fixture :: "(real, real) world" where
  "fixture = \<lparr>wv_dict = [(''a'', 0), (''b'', 1), (''c'', 2), (''d'', 3)],
              wv_arr = [[0], [2], [2], [5]],
              wv_size = 1,
              stdout = []\<rparr>"

text \<open>Eleven words on a line, at 0, 1, ..., 10.\<close>

definition fixture11 :: "(real, real) world" where
  "fixture11 = \<lparr>wv_dict = [(''a'', 0), (''b'', 1), (''c'', 2), (''d'', 3), (''e'', 4), (''f'', 5),
                          (''g'', 6), (''h'', 7), (''i'', 8), (''j'', 9), (''k'', 10)],
                wv_arr = [[0], [1], [2], [3], [4], [5], [6], [7], [8], [9], [10]],
                wv_size = 1,
                stdout = []\<rparr>"

text \<open>Four words in the plane, at distances 0, 5, 1 and 10 from the origin.\<close>

definition fixture2 :: "(real, real) world" where
  "fixture2 = \<lparr>wv_dict = [(''p'', 0), (''q'', 1), (''r'', 2), (''t'', 3)],
               wv_arr = [[0, 0], [3, 4], [0, 1], [6, 8]],
               wv_size = 2,
               stdout = []\<rparr>"



section \<open>Basic facts\<close>

subsection \<open>Evaluation on the fixtures\<close>

lemma sqrt_25: "sqrt 25 = 5"
  by (rule real_sqrt_unique) simp_all

lemma sqrt_100: "sqrt 100 = 10"
  by (rule real_sqrt_unique) simp_all

lemmas eval_defs = closest_def all_dists_def get_word_def dict_getitem_def arr_getitem_def
  torch_dist_def slice_upto_def analogy_words_def analogy_query_def tensor_sub_def
  tensor_add_def broadcast2_def broadcastable_def broadcast_map_def exact_def
  sqrt_25 sqrt_100

lemma wf_fixture: "wf_table fixture"
  by (simp add: wf_table_def fixture_def)

lemma wf_fixture11: "wf_table fixture11"
  by (simp add: wf_table_def fixture11_def)

lemma wf_fixture2: "wf_table fixture2"
  by (simp add: wf_table_def fixture2_def)

subsection \<open>Lookup\<close>

lemma dict_entry:
  assumes "wf_table s" "(w, i) \<in> set (wv_dict s)"
  shows "map_of (wv_dict s) w = Some i"
    and "i < length (wv_arr s)"
    and "length (wv_arr s ! i) = wv_size s"
proof -
  from assms show "map_of (wv_dict s) w = Some i"
    by (simp add: wf_table_def)
  from assms show i: "i < length (wv_arr s)"
    by (force simp: wf_table_def list_all_iff)
  with assms show "length (wv_arr s ! i) = wv_size s"
    by (simp add: wf_table_def list_all_iff)
qed

lemma get_word_entry:
  assumes "wf_table s" "(w, i) \<in> set (wv_dict s)"
  shows "get_word s w = Inr (wv_arr s ! i)"
  using dict_entry(1,2)[OF assms]
  by (simp add: get_word_def dict_getitem_def arr_getitem_def)

lemma get_word_absent:
  assumes "w \<notin> set (vocabulary s)"
  shows "get_word s w = Inl KeyError"
proof -
  from assms have "map_of (wv_dict s) w = None"
    by (simp add: vocabulary_def map_of_eq_None_iff)
  then show ?thesis by (simp add: get_word_def dict_getitem_def)
qed

lemma get_word_present:
  assumes "wf_table s" "w \<in> set (vocabulary s)"
  obtains i where "(w, i) \<in> set (wv_dict s)" and "get_word s w = Inr (wv_arr s ! i)"
    and "length (wv_arr s ! i) = wv_size s"
proof -
  from assms(2) obtain i where mem: "(w, i) \<in> set (wv_dict s)"
    by (auto simp: vocabulary_def)
  show thesis
    using that[OF mem get_word_entry[OF assms(1) mem] dict_entry(3)[OF assms(1) mem]] .
qed



subsection \<open>Distances\<close>

lemma broadcast_map_same_length:
  "length a = length b \<Longrightarrow> broadcast_map f a b = map2 f a b"
  by (simp add: broadcast_map_def)

lemma torch_dist_value:
  "broadcastable (length a) (length b) \<Longrightarrow> torch_dist A a b = Inr (dist_value A a b)"
  by (simp add: torch_dist_def tensor_sub_def broadcast2_def dist_value_def)



lemma sum_list_map2_nth:
  assumes len: "length a = length b"
  shows "sum_list (map2 f a b) = (\<Sum>i<length a. f (a ! i) (b ! i) :: real)"
proof -
  have "sum_list (map2 f a b) = (\<Sum>i = 0..<length (map2 f a b). map2 f a b ! i)"
    by (rule sum_list_sum_nth)
  also have "\<dots> = (\<Sum>i = 0..<length a. f (a ! i) (b ! i))"
    using len by (intro sum.cong) auto
  finally show ?thesis by (simp add: lessThan_atLeast0)
qed

lemma dist_value_exact:
  assumes "length a = length b"
  shows "dist_value exact a b = spec_distance a b"
proof -
  have "map (\<lambda>x. \<bar>x\<bar>\<^sup>2) (map2 (\<lambda>x y. x - y) a b) = map2 (\<lambda>x y. (x - y)\<^sup>2) a b"
    by auto
  then have "sum_list (map (\<lambda>x. \<bar>x\<bar>\<^sup>2) (map2 (\<lambda>x y. x - y) a b)) =
        sum_list (map2 (\<lambda>x y. (x - y)\<^sup>2) a b)"
    by (rule arg_cong)
  also have "\<dots> = (\<Sum>i<length a. (a ! i - b ! i)\<^sup>2)"
    by (rule sum_list_map2_nth[OF assms])
  finally show ?thesis
    using assms by (simp add: dist_value_def exact_def broadcast_map_same_length spec_distance_def)
qed



subsection \<open>The scan over the vocabulary\<close>

lemma all_dists_loop_ok:
  assumes wf: "wf_table s" and len: "broadcastable (length d) (wv_size s)"
  shows "set ps \<subseteq> set (wv_dict s) \<Longrightarrow>
         all_dists_loop A s d (map fst ps) =
           Inr (map (\<lambda>p. (fst p, dist_value A d (wv_arr s ! snd p))) ps)"
proof (induction ps)
  case Nil
  show ?case by simp
next
  case (Cons p ps)
  obtain w i where p: "p = (w, i)" by (cases p)
  with Cons.prems have mem: "(w, i) \<in> set (wv_dict s)" by simp
  have g: "get_word s w = Inr (wv_arr s ! i)" by (rule get_word_entry[OF wf mem])
  have "broadcastable (length d) (length (wv_arr s ! i))"
    using dict_entry(3)[OF wf mem] len by simp
  then have t: "torch_dist A d (wv_arr s ! i) = Inr (dist_value A d (wv_arr s ! i))"
    by (rule torch_dist_value)
  from Cons have "all_dists_loop A s d (map fst ps) =
           Inr (map (\<lambda>p. (fst p, dist_value A d (wv_arr s ! snd p))) ps)" by simp
  with g t p show ?case by simp
qed

lemma all_dists_ok:
  assumes "wf_table s" "broadcastable (length d) (wv_size s)"
  shows "all_dists A s d = Inr (spec_pairs (dist_value A) s d)"
  using all_dists_loop_ok[OF assms, of "wv_dict s"]
  by (simp add: all_dists_def spec_pairs_def entries_def comp_def)



lemma all_dists_loop_words:
  "all_dists_loop A s d ws = Inr xs \<Longrightarrow> map fst xs = ws"
proof (induction ws arbitrary: xs)
  case Nil
  then show ?case by simp
next
  case (Cons u ws)
  from Cons.prems obtain v where v: "get_word s u = Inr v"
    by (cases "get_word s u") simp_all
  from Cons.prems v obtain x where x: "torch_dist A d v = Inr x"
    by (cases "torch_dist A d v") simp_all
  from Cons.prems v x obtain r where r: "all_dists_loop A s d ws = Inr r"
    by (cases "all_dists_loop A s d ws") simp_all
  from Cons.prems v x r have "xs = (u, x) # r" by simp
  with Cons.IH[OF r] show ?case by simp
qed

subsection \<open>Slices\<close>

lemma set_slice_upto: "set (slice_upto xs n) \<subseteq> set xs"
  by (auto simp: slice_upto_def dest: in_set_takeD)

lemma slice_upto_nonneg: "0 \<le> n \<Longrightarrow> slice_upto xs n = take (nat n) xs"
  by (simp add: slice_upto_def)

subsection \<open>Only the table is read\<close>

lemma get_word_cong:
  assumes "wv_dict s = wv_dict t" "wv_arr s = wv_arr t"
  shows "get_word s w = get_word t w"
  using assms by (simp add: get_word_def cong: sum.case_cong)

lemma all_dists_loop_cong:
  assumes "wv_dict s = wv_dict t" "wv_arr s = wv_arr t"
  shows "all_dists_loop A s d ws = all_dists_loop A t d ws"
  by (induction ws) (simp_all add: get_word_cong[OF assms] cong: sum.case_cong)

lemma closest_cong:
  assumes "wv_dict s = wv_dict t" "wv_arr s = wv_arr t"
  shows "closest A s d n = closest A t d n"
  using assms by (simp add: closest_def all_dists_def all_dists_loop_cong[OF assms])

lemma analogy_query_cong:
  assumes "wv_dict s = wv_dict t" "wv_arr s = wv_arr t"
  shows "analogy_query A s w1 w2 w3 = analogy_query A t w1 w2 w3"
  by (simp add: analogy_query_def get_word_cong[OF assms] cong: sum.case_cong)

lemma analogy_words_cong:
  assumes "wv_dict s = wv_dict t" "wv_arr s = wv_arr t"
  shows "analogy_words A s w1 w2 w3 n fg = analogy_words A t w1 w2 w3 n fg"
  by (simp add: analogy_words_def analogy_query_cong[OF assms] closest_cong[OF assms]
      cong: sum.case_cong)

lemma analogy_unfold:
  "analogy A w1 w2 w3 n fg s =
     (case analogy_words A s w1 w2 w3 n fg of
        Inl e \<Rightarrow> (Inl e, s\<lparr>stdout := stdout s @ [Header w1 w2 w3]\<rparr>)
      | Inr r \<Rightarrow> (Inr (), s\<lparr>stdout := stdout s @ Header w1 w2 w3 # map (\<lambda>t. Entry (fst t) (snd t)) r\<rparr>))"
proof -
  have "analogy_words A (s\<lparr>stdout := stdout s @ [Header w1 w2 w3]\<rparr>) w1 w2 w3 n fg =
        analogy_words A s w1 w2 w3 n fg"
    by (rule analogy_words_cong) simp_all
  then show ?thesis
    by (simp add: analogy_def print_tuples_def Let_def split: sum.split)
qed

subsection \<open>Results on a well-formed table\<close>

lemma get_word_InrD:
  assumes wf: "wf_table s" and g: "get_word s w = Inr v"
  obtains i where "(w, i) \<in> set (wv_dict s)" and "v = wv_arr s ! i" and "length v = wv_size s"
proof -
  from g obtain i where m: "map_of (wv_dict s) w = Some i"
    by (cases "map_of (wv_dict s) w") (simp_all add: get_word_def dict_getitem_def)
  then have mem: "(w, i) \<in> set (wv_dict s)" by (rule map_of_SomeD)
  from get_word_entry[OF wf mem] g have v: "v = wv_arr s ! i" by simp
  with dict_entry(3)[OF wf mem] have "length v = wv_size s" by simp
  with mem v show thesis by (rule that)
qed

lemma closest_ranked:
  assumes "wf_table s" "broadcastable (length d) (wv_size s)"
  shows "closest A s d n = Inr (slice_upto (sort_key snd (spec_pairs (dist_value A) s d)) n)"
  by (simp add: closest_def all_dists_ok[OF assms])

lemma broadcastable_refl: "broadcastable n n"
  by (simp add: broadcastable_def)

lemma analogy_query_ok:
  assumes wf: "wf_table s"
    and g: "get_word s w1 = Inr v1" "get_word s w2 = Inr v2" "get_word s w3 = Inr v3"
  shows "analogy_query A s w1 w2 w3 = Inr (map2 (fadd A) (map2 (fsub A) v2 v1) v3)"
    and "length (map2 (fadd A) (map2 (fsub A) v2 v1) v3) = wv_size s"
proof -
  have l: "length v1 = wv_size s" "length v2 = wv_size s" "length v3 = wv_size s"
    using g by (auto elim: get_word_InrD[OF wf])
  show "analogy_query A s w1 w2 w3 = Inr (map2 (fadd A) (map2 (fsub A) v2 v1) v3)"
    using g l
    by (simp add: analogy_query_def tensor_sub_def tensor_add_def broadcast2_def
        broadcastable_def broadcast_map_def)
  show "length (map2 (fadd A) (map2 (fsub A) v2 v1) v3) = wv_size s"
    using l by simp
qed

lemma analogy_words_InrE:
  assumes "analogy_words A s w1 w2 w3 n fg = Inr r"
  obtains q cw where "analogy_query A s w1 w2 w3 = Inr q" and "closest A s q 10 = Inr cw"
    and "r = slice_upto (if fg then filter (\<lambda>t. fst t \<notin> set [w1, w2, w3]) cw else cw) n"
proof (cases "analogy_query A s w1 w2 w3")
  case (Inl e)
  with assms show thesis by (simp add: analogy_words_def)
next
  case q: (Inr q)
  show thesis
  proof (cases "closest A s q 10")
    case (Inl e)
    with assms q show thesis by (simp add: analogy_words_def)
  next
    case (Inr cw)
    with assms q have "r = slice_upto (if fg then filter (\<lambda>t. fst t \<notin> set [w1, w2, w3]) cw else cw) n"
      by (simp add: analogy_words_def)
    with q Inr show thesis by (rule that)
  qed
qed

lemma analogy_words_ok:
  assumes wf: "wf_table s"
    and p: "w1 \<in> set (vocabulary s)" "w2 \<in> set (vocabulary s)" "w3 \<in> set (vocabulary s)"
  obtains q cw where "analogy_query A s w1 w2 w3 = Inr q" and "length q = wv_size s"
    and "closest A s q 10 = Inr cw"
    and "\<And>n fg. analogy_words A s w1 w2 w3 n fg =
           Inr (slice_upto (if fg then filter (\<lambda>t. fst t \<notin> set [w1, w2, w3]) cw else cw) n)"
proof -
  from get_word_present[OF wf p(1)] obtain v1 where g1: "get_word s w1 = Inr v1" by blast
  from get_word_present[OF wf p(2)] obtain v2 where g2: "get_word s w2 = Inr v2" by blast
  from get_word_present[OF wf p(3)] obtain v3 where g3: "get_word s w3 = Inr v3" by blast
  define q where "q = map2 (fadd A) (map2 (fsub A) v2 v1) v3"
  have q: "analogy_query A s w1 w2 w3 = Inr q" and lq: "length q = wv_size s"
    unfolding q_def by (rule analogy_query_ok[OF wf g1 g2 g3])+
  have bc: "broadcastable (length q) (wv_size s)" by (simp add: lq broadcastable_refl)
  define cw where "cw = slice_upto (sort_key snd (spec_pairs (dist_value A) s q)) 10"
  have c: "closest A s q 10 = Inr cw"
    unfolding cw_def by (rule closest_ranked[OF wf bc])
  have "analogy_words A s w1 w2 w3 n fg =
           Inr (slice_upto (if fg then filter (\<lambda>t. fst t \<notin> set [w1, w2, w3]) cw else cw) n)" for n fg
    using q c by (simp add: analogy_words_def)
  with q lq c show thesis by (rule that)
qed

lemma get_word_iff_entry:
  assumes wf: "wf_table s"
  shows "get_word s w = Inr v \<longleftrightarrow> (w, v) \<in> set (entries s)"
proof
  assume "get_word s w = Inr v"
  then obtain i where "(w, i) \<in> set (wv_dict s)" "v = wv_arr s ! i"
    by (rule get_word_InrD[OF wf])
  then show "(w, v) \<in> set (entries s)" by (force simp: entries_def)
next
  assume "(w, v) \<in> set (entries s)"
  then obtain i where "(w, i) \<in> set (wv_dict s)" "v = wv_arr s ! i"
    by (auto simp: entries_def)
  with get_word_entry[OF wf] show "get_word s w = Inr v" by simp
qed

lemma get_word_KeyError_iff:
  assumes wf: "wf_table s"
  shows "get_word s w = Inl KeyError \<longleftrightarrow> w \<notin> set (vocabulary s)"
proof
  assume k: "get_word s w = Inl KeyError"
  show "w \<notin> set (vocabulary s)"
  proof
    assume "w \<in> set (vocabulary s)"
    from get_word_present[OF wf this] obtain i where "get_word s w = Inr (wv_arr s ! i)" by blast
    with k show False by simp
  qed
next
  assume "w \<notin> set (vocabulary s)"
  then show "get_word s w = Inl KeyError" by (rule get_word_absent)
qed

lemma analogy_query_absent:
  assumes wf: "wf_table s"
    and a: "w1 \<notin> set (vocabulary s) \<or> w2 \<notin> set (vocabulary s) \<or> w3 \<notin> set (vocabulary s)"
  shows "analogy_query A s w1 w2 w3 = Inl KeyError"
proof (cases "w2 \<in> set (vocabulary s)")
  case False
  then show ?thesis by (simp add: analogy_query_def get_word_absent)
next
  case w2: True
  from get_word_present[OF wf w2] obtain i2 where
    g2: "get_word s w2 = Inr (wv_arr s ! i2)" and l2: "length (wv_arr s ! i2) = wv_size s"
    by blast
  show ?thesis
  proof (cases "w1 \<in> set (vocabulary s)")
    case False
    with g2 show ?thesis by (simp add: analogy_query_def get_word_absent)
  next
    case w1: True
    from get_word_present[OF wf w1] obtain i1 where
      g1: "get_word s w1 = Inr (wv_arr s ! i1)" and l1: "length (wv_arr s ! i1) = wv_size s"
      by blast
    from a w1 w2 have "w3 \<notin> set (vocabulary s)" by blast
    with g1 g2 l1 l2 show ?thesis
      by (simp add: analogy_query_def get_word_absent tensor_sub_def broadcast2_def
          broadcastable_def)
  qed
qed

subsection \<open>What a call of analogy leaves behind\<close>

lemma analogy_table:
  "wv_dict (snd (analogy A w1 w2 w3 n fg s)) = wv_dict s"
  "wv_arr (snd (analogy A w1 w2 w3 n fg s)) = wv_arr s"
  "wv_size (snd (analogy A w1 w2 w3 n fg s)) = wv_size s"
  by (simp_all add: analogy_unfold split: sum.split)

lemma analogy_fst:
  "fst (analogy A w1 w2 w3 n fg s) =
     (case analogy_words A s w1 w2 w3 n fg of Inl e \<Rightarrow> Inl e | Inr r \<Rightarrow> Inr ())"
  by (simp add: analogy_unfold split: sum.split)

lemma analogy_printed:
  "printed s (snd (analogy A w1 w2 w3 n fg s)) =
     Header w1 w2 w3 #
       (case analogy_words A s w1 w2 w3 n fg of
          Inl e \<Rightarrow> []
        | Inr r \<Rightarrow> map (\<lambda>t. Entry (fst t) (snd t)) r)"
  by (simp add: analogy_unfold printed_def split: sum.split)

lemma analogy_stdout:
  "stdout (snd (analogy A w1 w2 w3 n fg s)) =
     stdout s @ printed s (snd (analogy A w1 w2 w3 n fg s))"
  by (simp add: analogy_unfold printed_def split: sum.split)

lemma printed_entry:
  assumes "Entry w x \<in> set (printed s (snd (analogy A w1 w2 w3 n fg s)))"
  obtains r where "analogy_words A s w1 w2 w3 n fg = Inr r" and "(w, x) \<in> set r"
proof (cases "analogy_words A s w1 w2 w3 n fg")
  case (Inl e)
  with assms show thesis by (simp add: analogy_printed)
next
  case (Inr r)
  with assms have "Entry w x \<in> set (map (\<lambda>t. Entry (fst t) (snd t)) r)"
    by (simp add: analogy_printed)
  then have "(w, x) \<in> set r" by auto
  with Inr show thesis by (rule that)
qed

subsection \<open>The ranking\<close>

lemma spec_pairs_words: "map fst (spec_pairs dst s q) = vocabulary s"
  by (simp add: spec_pairs_def entries_def vocabulary_def comp_def)

lemma length_spec_pairs: "length (spec_pairs dst s q) = length (wv_dict s)"
  by (simp add: spec_pairs_def entries_def)

lemma distinct_map_sort_key:
  "distinct (map g (sort_key f xs)) \<longleftrightarrow> distinct (map g xs)"
  by (simp add: distinct_map)

lemma distinct_map_take: "distinct (map g xs) \<Longrightarrow> distinct (map g (take n xs))"
  by (simp add: take_map[symmetric])

lemma distinct_ranked:
  assumes "wf_table s"
  shows "distinct (map fst (take n (sort_key snd (spec_pairs dst s q))))"
proof -
  have "distinct (map fst (spec_pairs dst s q))"
    using assms by (simp add: spec_pairs_words wf_table_def vocabulary_def)
  then show ?thesis by (intro distinct_map_take) (simp add: distinct_map_sort_key)
qed

lemma hd_sort_key:
  fixes f :: "'b \<Rightarrow> 'k::linorder"
  assumes mem: "x \<in> set xs" and low: "\<And>y. y \<in> set xs \<Longrightarrow> f x \<le> f y"
  shows "sort_key f xs \<noteq> []" and "hd (sort_key f xs) = hd (filter (\<lambda>y. f y = f x) xs)"
proof -
  from mem have "length (sort_key f xs) \<noteq> 0" by (cases xs) simp_all
  then show ne: "sort_key f xs \<noteq> []" by (simp only: length_0_conv not_False_eq_True)
  then obtain y ys where ys: "sort_key f xs = y # ys" by (cases "sort_key f xs") simp_all
  have srt: "sorted (map f (sort_key f xs))" by (rule sorted_sort_key)
  have "x \<in> set (sort_key f xs)" using mem by simp
  with srt ys have "f y \<le> f x" by auto
  moreover have "y \<in> set xs"
  proof -
    have "y \<in> set (sort_key f xs)" using ys by simp
    then show ?thesis by simp
  qed
  then have "f x \<le> f y" by (rule low)
  ultimately have fy: "f y = f x" by simp
  have "filter (\<lambda>z. f z = f x) xs = filter (\<lambda>z. f z = f x) (sort_key f xs)"
    by (rule sort_key_stable[symmetric])
  also have "\<dots> = y # filter (\<lambda>z. f z = f x) ys" using ys fy by simp
  finally show "hd (sort_key f xs) = hd (filter (\<lambda>y. f y = f x) xs)" using ys by simp
qed

lemma take_1_hd: "xs \<noteq> [] \<Longrightarrow> take (Suc 0) xs = [hd xs]"
  by (cases xs) simp_all

lemma length_filter_fst_mem:
  assumes "distinct (map fst xs)"
  shows "length (filter (\<lambda>t. fst t \<in> set ws) xs) \<le> length ws"
proof -
  let ?ys = "map fst (filter (\<lambda>t. fst t \<in> set ws) xs)"
  have d: "distinct ?ys" using assms by (simp add: distinct_map_filter)
  have "length (filter (\<lambda>t. fst t \<in> set ws) xs) = length ?ys" by simp
  also have "\<dots> = card (set ?ys)" using d by (rule distinct_card[symmetric])
  also have "\<dots> \<le> card (set ws)" by (intro card_mono) auto
  also have "\<dots> \<le> length ws" by (rule card_length)
  finally show ?thesis .
qed

lemma length_filter_fst_notin:
  assumes "distinct (map fst xs)"
  shows "length xs \<le> length (filter (\<lambda>t. fst t \<notin> set ws) xs) + length ws"
proof -
  have "length xs = length (filter (\<lambda>t. fst t \<in> set ws) xs) +
                    length (filter (\<lambda>t. \<not> fst t \<in> set ws) xs)"
    by (rule sum_length_filter_compl[symmetric])
  with length_filter_fst_mem[OF assms, of ws] show ?thesis by simp
qed

subsection \<open>The nearest entry\<close>

text \<open>
  In any arithmetic in which no row is nearer to \<open>v\<close> than \<open>v\<close> itself, the search
  for one neighbour of the vector \<open>v\<close> of a word returns the first pair, in iteration
  order, at the distance of \<open>v\<close> to itself.
\<close>

lemma closest_own_vector_any_arith:
  fixes A :: "('a, 'd::linorder) arith"
  assumes wf: "wf_table s" and g: "get_word s w = Inr v"
    and least: "\<And>e. e \<in> set (entries s) \<Longrightarrow> dist_value A v v \<le> dist_value A v (snd e)"
  shows "closest A s v 1 =
           Inr [hd (filter (\<lambda>t. snd t = dist_value A v v) (spec_pairs (dist_value A) s v))]"
proof -
  from g obtain i where mem: "(w, i) \<in> set (wv_dict s)" and v: "v = wv_arr s ! i"
    and len: "length v = wv_size s"
    by (rule get_word_InrD[OF wf])
  let ?P = "spec_pairs (dist_value A) s v"
  have "(w, wv_arr s ! i) \<in> set (entries s)" using mem by (force simp: entries_def)
  then have in_pairs: "(w, dist_value A v v) \<in> set ?P"
    unfolding spec_pairs_def using v by force
  have low: "snd (w, dist_value A v v) \<le> snd y" if "y \<in> set ?P" for y
    using that least by (auto simp: spec_pairs_def)
  note h = hd_sort_key[of "(w, dist_value A v v)" ?P snd, OF in_pairs low]
  have bc: "broadcastable (length v) (wv_size s)" by (simp add: len broadcastable_refl)
  have "closest A s v 1 = Inr (take (Suc 0) (sort_key snd ?P))"
    by (simp add: closest_ranked[OF wf bc] slice_upto_def)
  also have "take (Suc 0) (sort_key snd ?P) = [hd (sort_key snd ?P)]"
    using h(1) by (rule take_1_hd)
  finally show ?thesis using h(2) by simp
qed

subsection \<open>The nearest entry in exact arithmetic\<close>





section \<open>The claims\<close>

text \<open>
  C5. For every table and every \<open>n\<close>, no entry of the sequence that
  \<open>analogy(w1, w2, w3, n, filterGiven=true)\<close> produces has a word equal to \<open>w1\<close>,
  \<open>w2\<close> or \<open>w3\<close>, and so has no line that the call prints; and on a well-formed
  table that contains the three words the call does produce a sequence.
\<close>

theorem analogy_excludes_given:
  "(analogy_words A s w1 w2 w3 n True = Inr r \<and> (w, x) \<in> set r \<longrightarrow>
      w \<noteq> w1 \<and> w \<noteq> w2 \<and> w \<noteq> w3) \<and>
   (Entry w x \<in> set (printed s (snd (analogy A w1 w2 w3 n True s))) \<longrightarrow>
      w \<noteq> w1 \<and> w \<noteq> w2 \<and> w \<noteq> w3) \<and>
   (wf_table s \<and> w1 \<in> set (vocabulary s) \<and> w2 \<in> set (vocabulary s) \<and>
      w3 \<in> set (vocabulary s) \<longrightarrow> (\<exists>r'. analogy_words A s w1 w2 w3 n True = Inr r'))"
proof -
  have excl: "w \<noteq> w1 \<and> w \<noteq> w2 \<and> w \<noteq> w3"
    if a: "analogy_words A s w1 w2 w3 n True = Inr r" "(w, x) \<in> set r" for r
  proof -
    from a(1) obtain cw where
      r: "r = slice_upto (filter (\<lambda>t. fst t \<notin> set [w1, w2, w3]) cw) n"
      by (elim analogy_words_InrE) simp
    have "set r \<subseteq> set (filter (\<lambda>t. fst t \<notin> set [w1, w2, w3]) cw)"
      unfolding r by (rule set_slice_upto)
    with a(2) have "(w, x) \<in> set (filter (\<lambda>t. fst t \<notin> set [w1, w2, w3]) cw)" by blast
    then show ?thesis by simp
  qed
  have pr: "w \<noteq> w1 \<and> w \<noteq> w2 \<and> w \<noteq> w3"
    if "Entry w x \<in> set (printed s (snd (analogy A w1 w2 w3 n True s)))"
    using that by (elim printed_entry) (rule excl)
  have tot: "\<exists>r'. analogy_words A s w1 w2 w3 n True = Inr r'"
    if "wf_table s \<and> w1 \<in> set (vocabulary s) \<and> w2 \<in> set (vocabulary s) \<and>
        w3 \<in> set (vocabulary s)"
  proof -
    from that have wf: "wf_table s" and p: "w1 \<in> set (vocabulary s)"
      "w2 \<in> set (vocabulary s)" "w3 \<in> set (vocabulary s)" by simp_all
    from analogy_words_ok[OF wf p] obtain cw where
      "analogy_words A s w1 w2 w3 n True =
         Inr (slice_upto (if True then filter (\<lambda>t. fst t \<notin> set [w1, w2, w3]) cw else cw) n)"
      by blast
    then show ?thesis by blast
  qed
  from excl pr tot show ?thesis by blast
qed

theorem analogy_excludes_given_witness:
  "wf_table fixture11 \<and> ''a'' \<in> set (vocabulary fixture11) \<and>
   ''b'' \<in> set (vocabulary fixture11) \<and> ''c'' \<in> set (vocabulary fixture11) \<and>
   analogy_words exact fixture11 ''a'' ''b'' ''c'' 5 True =
     Inr [(''d'', 0), (''e'', 1), (''f'', 2), (''g'', 3), (''h'', 4)] \<and>
   (''d'', 0) \<in> set [(''d'', 0), (''e'', 1), (''f'', 2), (''g'', 3), (''h'', 4 :: real)] \<and>
   Entry ''d'' 0 \<in> set (printed fixture11 (snd (analogy exact ''a'' ''b'' ''c'' 5 True fixture11))) \<and>
   ''d'' \<noteq> ''a'' \<and> ''d'' \<noteq> ''b'' \<and> ''d'' \<noteq> ''c''"
proof -
  have v: "''a'' \<in> set (vocabulary fixture11) \<and>
   ''b'' \<in> set (vocabulary fixture11) \<and> ''c'' \<in> set (vocabulary fixture11)"
    by (simp add: vocabulary_def fixture11_def)
  have a: "analogy_words exact fixture11 ''a'' ''b'' ''c'' 5 True =
     Inr [(''d'', 0), (''e'', 1), (''f'', 2), (''g'', 3), (''h'', 4)]"
    by (simp add: eval_defs fixture11_def)
  have b: "(''d'', 0) \<in> set [(''d'', 0), (''e'', 1), (''f'', 2), (''g'', 3), (''h'', 4 :: real)]"
    by simp
  have p: "Entry ''d'' 0 \<in> set (printed fixture11 (snd (analogy exact ''a'' ''b'' ''c'' 5 True fixture11)))"
    by (simp add: analogy_printed a)
  from analogy_excludes_given[of exact fixture11 "''a''" "''b''" "''c''" 5 _ "''d''" 0] a b
  have "''d'' \<noteq> ''a'' \<and> ''d'' \<noteq> ''b'' \<and> ''d'' \<noteq> ''c''" by blast
  with wf_fixture11 v a b p show ?thesis by blast
qed

text \<open>
  C6. For every table containing \<open>w1\<close>, \<open>w2\<close>, \<open>w3\<close>, the query vector that
  \<open>analogy\<close> submits to the nearest-neighbour search is
  \<open>lookup(w2) - lookup(w1) + lookup(w3)\<close>, component by component over the \<open>D\<close>
  components: component \<open>i\<close> is the sum of the difference of the components \<open>i\<close> of
  \<open>lookup(w2)\<close> and \<open>lookup(w1)\<close> and of component \<open>i\<close> of \<open>lookup(w3)\<close>, in
  the components' own arithmetic, whatever that is.
\<close>

theorem analogy_query_elementwise:
  assumes "wf_table s"
    and "get_word s w1 = Inr v1" and "get_word s w2 = Inr v2" and "get_word s w3 = Inr v3"
  shows "\<exists>q. analogy_query A s w1 w2 w3 = Inr q \<and> length q = wv_size s \<and>
           q = map (\<lambda>i. fadd A (fsub A (v2 ! i) (v1 ! i)) (v3 ! i)) [0..<wv_size s] \<and>
           analogy_words A s w1 w2 w3 n fg =
             (case closest A s q 10 of
                Inl e \<Rightarrow> Inl e
              | Inr cw \<Rightarrow>
                  Inr (slice_upto
                        (if fg then filter (\<lambda>t. fst t \<notin> set [w1, w2, w3]) cw else cw) n))"
proof -
  define q where "q = map2 (fadd A) (map2 (fsub A) v2 v1) v3"
  have q: "analogy_query A s w1 w2 w3 = Inr q" and lq: "length q = wv_size s"
    unfolding q_def by (rule analogy_query_ok[OF assms])+
  have l: "length v1 = wv_size s" "length v2 = wv_size s" "length v3 = wv_size s"
    using assms(2-4) by (auto elim: get_word_InrD[OF assms(1)])
  have "q = map (\<lambda>i. fadd A (fsub A (v2 ! i) (v1 ! i)) (v3 ! i)) [0..<wv_size s]"
    using l lq by (intro nth_equalityI) (simp_all add: q_def)
  moreover have "analogy_words A s w1 w2 w3 n fg =
             (case closest A s q 10 of
                Inl e \<Rightarrow> Inl e
              | Inr cw \<Rightarrow>
                  Inr (slice_upto
                        (if fg then filter (\<lambda>t. fst t \<notin> set [w1, w2, w3]) cw else cw) n))"
    using q by (simp add: analogy_words_def)
  ultimately show ?thesis using q lq by blast
qed

theorem analogy_query_elementwise_witness:
  "wf_table fixture2 \<and> get_word fixture2 ''r'' = Inr [0, 1] \<and>
   get_word fixture2 ''q'' = Inr [3, 4] \<and> get_word fixture2 ''t'' = Inr [6, 8] \<and>
   analogy_query exact fixture2 ''r'' ''q'' ''t'' = Inr [3 - 0 + 6, 4 - 1 + 8]"
proof -
  have g: "get_word fixture2 ''r'' = Inr [0, 1]" "get_word fixture2 ''q'' = Inr [3, 4]"
    "get_word fixture2 ''t'' = Inr [6, 8]"
    by (simp_all add: eval_defs fixture2_def)
  have sz: "[0..<wv_size fixture2] = [0, Suc 0]"
    by (simp add: fixture2_def upt_rec)
  from analogy_query_elementwise[OF wf_fixture2 g, of exact 5 True]
  have "analogy_query exact fixture2 ''r'' ''q'' ''t'' =
          Inr (map (\<lambda>i. fadd exact (fsub exact ([3, 4] ! i) ([0, 1] ! i)) ([6, 8] ! i))
                 [0..<wv_size fixture2])"
    by auto
  then have "analogy_query exact fixture2 ''r'' ''q'' ''t'' = Inr [3 - 0 + 6, 4 - 1 + 8]"
    by (simp add: sz exact_def)
  with wf_fixture2 g show ?thesis by blast
qed

text \<open>
  C7. \<open>lookup(word)\<close> returns the stored vector exactly when the word is a key of the
  table (the keys are compared as strings, so the match is exact and case-sensitive),
  and fails with the unknown-word error (Python's KeyError) exactly when it is absent;
  \<open>analogy\<close> fails with that error whenever one of its three words is absent.
\<close>

theorem lookup_exact:
  assumes "wf_table s"
  shows "(get_word s w = Inr v \<longleftrightarrow> (w, v) \<in> set (entries s)) \<and>
         ((\<exists>u. get_word s w = Inr u) \<longleftrightarrow> w \<in> set (vocabulary s)) \<and>
         (get_word s w = Inl KeyError \<longleftrightarrow> w \<notin> set (vocabulary s)) \<and>
         (w1 \<notin> set (vocabulary s) \<or> w2 \<notin> set (vocabulary s) \<or> w3 \<notin> set (vocabulary s) \<longrightarrow>
            analogy_words A s w1 w2 w3 n fg = Inl KeyError \<and>
            fst (analogy A w1 w2 w3 n fg s) = Inl KeyError)"
proof (intro conjI impI)
  show "get_word s w = Inr v \<longleftrightarrow> (w, v) \<in> set (entries s)"
    by (rule get_word_iff_entry[OF assms])
  show k: "get_word s w = Inl KeyError \<longleftrightarrow> w \<notin> set (vocabulary s)"
    by (rule get_word_KeyError_iff[OF assms])
  show "(\<exists>u. get_word s w = Inr u) \<longleftrightarrow> w \<in> set (vocabulary s)"
  proof
    assume "\<exists>u. get_word s w = Inr u"
    with k show "w \<in> set (vocabulary s)" by auto
  next
    assume "w \<in> set (vocabulary s)"
    from get_word_present[OF assms this] show "\<exists>u. get_word s w = Inr u" by blast
  qed
next
  assume "w1 \<notin> set (vocabulary s) \<or> w2 \<notin> set (vocabulary s) \<or> w3 \<notin> set (vocabulary s)"
  then have q: "analogy_query A s w1 w2 w3 = Inl KeyError"
    by (rule analogy_query_absent[OF assms])
  then show "analogy_words A s w1 w2 w3 n fg = Inl KeyError"
    by (simp add: analogy_words_def)
  then show "fst (analogy A w1 w2 w3 n fg s) = Inl KeyError"
    by (simp add: analogy_unfold)
qed

theorem lookup_exact_witness:
  "wf_table fixture \<and>
   get_word fixture ''a'' = Inr [0] \<and> (''a'', [0]) \<in> set (entries fixture) \<and>
   ''a'' \<in> set (vocabulary fixture) \<and>
   get_word fixture ''A'' = Inl KeyError \<and> ''A'' \<notin> set (vocabulary fixture) \<and>
   analogy_words exact fixture ''a'' ''A'' ''b'' 5 True = Inl KeyError \<and>
   fst (analogy exact ''a'' ''A'' ''b'' 5 True fixture) = Inl KeyError"
proof -
  have e: "(''a'', [0]) \<in> set (entries fixture)"
    by (simp add: entries_def fixture_def)
  have v: "''a'' \<in> set (vocabulary fixture)" "''A'' \<notin> set (vocabulary fixture)"
    by (simp_all add: vocabulary_def fixture_def)
  note t = lookup_exact[OF wf_fixture]
  from t[of "''a''" "[0]"] e have "get_word fixture ''a'' = Inr [0]" by blast
  moreover from t[of "''A''"] v have "get_word fixture ''A'' = Inl KeyError" by blast
  moreover from t[of _ _ "''a''" "''A''" "''b''" exact 5 True] v
  have "analogy_words exact fixture ''a'' ''A'' ''b'' 5 True = Inl KeyError \<and>
   fst (analogy exact ''a'' ''A'' ''b'' 5 True fixture) = Inl KeyError" by blast
  ultimately show ?thesis using wf_fixture e v by blast
qed




text \<open>
  C8. Two calls of \<open>nearestTo\<close>, or of \<open>analogy\<close>, with the same inputs against the
  same table give the same output: a lookup or a search made after a call of
  \<open>analogy\<close> returns what it returned before it, and a second call of \<open>analogy\<close>,
  made in the state the first one left, ends the same way and prints the same lines.
\<close>

theorem repeated_calls_agree:
  "get_word (snd (analogy A a b c m f s)) w = get_word s w \<and>
   closest A (snd (analogy A a b c m f s)) d n = closest A s d n \<and>
   analogy_words A (snd (analogy A a b c m f s)) w1 w2 w3 n fg = analogy_words A s w1 w2 w3 n fg \<and>
   fst (analogy A w1 w2 w3 n fg (snd (analogy A w1 w2 w3 n fg s))) = fst (analogy A w1 w2 w3 n fg s) \<and>
   printed (snd (analogy A w1 w2 w3 n fg s))
           (snd (analogy A w1 w2 w3 n fg (snd (analogy A w1 w2 w3 n fg s)))) =
     printed s (snd (analogy A w1 w2 w3 n fg s))"
proof -
  have w: "analogy_words A (snd (analogy A a' b' c' m' f' s)) w1 w2 w3 n fg =
           analogy_words A s w1 w2 w3 n fg" for a' b' c' m' f'
    by (rule analogy_words_cong) (rule analogy_table)+
  have "get_word (snd (analogy A a b c m f s)) w = get_word s w"
    by (rule get_word_cong) (rule analogy_table)+
  moreover have "closest A (snd (analogy A a b c m f s)) d n = closest A s d n"
    by (rule closest_cong) (rule analogy_table)+
  moreover have "fst (analogy A w1 w2 w3 n fg (snd (analogy A w1 w2 w3 n fg s))) =
                 fst (analogy A w1 w2 w3 n fg s)"
    by (simp only: analogy_fst w)
  moreover have "printed (snd (analogy A w1 w2 w3 n fg s))
           (snd (analogy A w1 w2 w3 n fg (snd (analogy A w1 w2 w3 n fg s)))) =
     printed s (snd (analogy A w1 w2 w3 n fg s))"
    by (simp only: analogy_printed w)
  ultimately show ?thesis using w by blast
qed

text \<open>
  C9. Every operation is a function of the table and its inputs, and none changes the
  table. \<open>get_word\<close> and \<open>closest\<close> are expressions without an assignment: in the
  model they return a value and no new state, and their value is the same in two states
  with the same table. \<open>analogy\<close> only prints: the state it leaves has the same dict,
  the same array and the same entries, and its standard output is the old one followed
  by the header and the lines of the result.
\<close>

theorem operations_pure:
  "wv_dict (snd (analogy A w1 w2 w3 n fg s)) = wv_dict s \<and>
   wv_arr (snd (analogy A w1 w2 w3 n fg s)) = wv_arr s \<and>
   wv_size (snd (analogy A w1 w2 w3 n fg s)) = wv_size s \<and>
   entries (snd (analogy A w1 w2 w3 n fg s)) = entries s \<and>
   stdout (snd (analogy A w1 w2 w3 n fg s)) =
     stdout s @ Header w1 w2 w3 #
       (case analogy_words A s w1 w2 w3 n fg of
          Inl e \<Rightarrow> []
        | Inr r \<Rightarrow> map (\<lambda>t. Entry (fst t) (snd t)) r) \<and>
   (wv_dict s = wv_dict t \<and> wv_arr s = wv_arr t \<longrightarrow>
      get_word s w = get_word t w \<and>
      closest A s d n = closest A t d n \<and>
      analogy_words A s w1 w2 w3 n fg = analogy_words A t w1 w2 w3 n fg \<and>
      fst (analogy A w1 w2 w3 n fg s) = fst (analogy A w1 w2 w3 n fg t) \<and>
      printed s (snd (analogy A w1 w2 w3 n fg s)) = printed t (snd (analogy A w1 w2 w3 n fg t)))"
proof (intro conjI impI)
  show "wv_dict (snd (analogy A w1 w2 w3 n fg s)) = wv_dict s"
    "wv_arr (snd (analogy A w1 w2 w3 n fg s)) = wv_arr s"
    "wv_size (snd (analogy A w1 w2 w3 n fg s)) = wv_size s"
    by (rule analogy_table)+
  show "entries (snd (analogy A w1 w2 w3 n fg s)) = entries s"
    by (simp only: entries_def analogy_table)
  show "stdout (snd (analogy A w1 w2 w3 n fg s)) =
     stdout s @ Header w1 w2 w3 #
       (case analogy_words A s w1 w2 w3 n fg of
          Inl e \<Rightarrow> []
        | Inr r \<Rightarrow> map (\<lambda>t. Entry (fst t) (snd t)) r)"
    by (simp only: analogy_stdout analogy_printed)
next
  assume "wv_dict s = wv_dict t \<and> wv_arr s = wv_arr t"
  then have st: "wv_dict s = wv_dict t" "wv_arr s = wv_arr t" by simp_all
  show "get_word s w = get_word t w" by (rule get_word_cong[OF st])
  show "closest A s d n = closest A t d n" by (rule closest_cong[OF st])
  show w: "analogy_words A s w1 w2 w3 n fg = analogy_words A t w1 w2 w3 n fg"
    by (rule analogy_words_cong[OF st])
  show "fst (analogy A w1 w2 w3 n fg s) = fst (analogy A w1 w2 w3 n fg t)"
    by (simp only: analogy_fst w)
  show "printed s (snd (analogy A w1 w2 w3 n fg s)) = printed t (snd (analogy A w1 w2 w3 n fg t))"
    by (simp only: analogy_printed w)
qed

theorem operations_pure_witness:
  "wv_dict fixture = wv_dict (fixture\<lparr>stdout := [Header ''x'' ''y'' ''z'']\<rparr>) \<and>
   wv_arr fixture = wv_arr (fixture\<lparr>stdout := [Header ''x'' ''y'' ''z'']\<rparr>) \<and>
   closest exact (fixture\<lparr>stdout := [Header ''x'' ''y'' ''z'']\<rparr>) [2] 2 = Inr [(''b'', 0), (''c'', 0)] \<and>
   stdout (snd (analogy exact ''a'' ''b'' ''d'' 2 True fixture)) =
     [Header ''a'' ''b'' ''d'', Entry ''c'' 5]"
proof -
  have t: "wv_dict fixture = wv_dict (fixture\<lparr>stdout := [Header ''x'' ''y'' ''z'']\<rparr>) \<and>
   wv_arr fixture = wv_arr (fixture\<lparr>stdout := [Header ''x'' ''y'' ''z'']\<rparr>)"
    by simp
  have c: "closest exact fixture [2] 2 = Inr [(''b'', 0), (''c'', 0)]"
    by (simp add: eval_defs fixture_def)
  have a: "analogy_words exact fixture ''a'' ''b'' ''d'' 2 True = Inr [(''c'', 5)]"
    by (simp add: eval_defs fixture_def)
  have e: "stdout fixture = []" by (simp add: fixture_def)
  note p = operations_pure[of exact "''a''" "''b''" "''d''" 2 True fixture
      "fixture\<lparr>stdout := [Header ''x'' ''y'' ''z'']\<rparr>" _ "[2]"]
  from p t c have "closest exact (fixture\<lparr>stdout := [Header ''x'' ''y'' ''z'']\<rparr>) [2] 2 =
      Inr [(''b'', 0), (''c'', 0)]" by metis
  moreover from p a e have "stdout (snd (analogy exact ''a'' ''b'' ''d'' 2 True fixture)) =
     [Header ''a'' ''b'' ''d'', Entry ''c'' 5]" by simp
  ultimately show ?thesis using t by blast
qed

text \<open>
  C2 (amended). For every query \<open>q\<close> of the table's dimensionality and every
  \<open>n \<ge> 0\<close>, \<open>nearestTo(q, table, n)\<close> computes \<^verbatim>\<open>torch.dist(q, v)\<close> for every
  entry's vector \<open>v\<close>, that is the 2-norm of the elementwise difference \<open>q - v\<close> in
  the tensors' own arithmetic (in exact arithmetic the Euclidean distance
  \<open>sqrt(sum_i (q_i - v_i)^2)\<close>, in float32 its rounded computation), sorts all
  (word, distance) pairs ascending by that distance with ties in the table's iteration
  order, truncates to the first \<open>n\<close>, and returns a sequence of length
  \<open>min(n, table.size())\<close>.
\<close>

theorem closest_refines_spec:
  assumes "wf_table s" and "length q = wv_size s" and "0 \<le> n"
  shows "all_dists A s q = Inr (spec_pairs (dist_value A) s q) \<and>
         list_all (\<lambda>e. torch_dist A q (snd e) = Inr (dist_value A q (snd e)) \<and>
                       dist_value A q (snd e) = norm2 A (map2 (fsub A) q (snd e)))
                  (entries s) \<and>
         closest A s q n = Inr (spec_nearestTo (dist_value A) s q n) \<and>
         int (length (spec_nearestTo (dist_value A) s q n)) = min n (int (length (wv_dict s))) \<and>
         sorted (map snd (spec_nearestTo (dist_value A) s q n)) \<and>
         (\<exists>full. closest A s q (int (length (wv_dict s))) = Inr full \<and>
                 spec_nearestTo (dist_value A) s q n = take (nat n) full \<and>
                 length full = length (wv_dict s) \<and>
                 set full = set (spec_pairs (dist_value A) s q) \<and>
                 sorted (map snd full) \<and>
                 (\<forall>k. filter (\<lambda>t. snd t = k) full =
                      filter (\<lambda>t. snd t = k) (spec_pairs (dist_value A) s q))) \<and>
         (length q' = length v' \<longrightarrow>
            torch_dist exact q' v' = Inr (spec_distance q' v'))"
proof (intro conjI impI)
  let ?pairs = "spec_pairs (dist_value A) s q"
  let ?full = "sort_key snd ?pairs"
  have bc: "broadcastable (length q) (wv_size s)"
    by (simp add: assms(2) broadcastable_refl)
  show "all_dists A s q = Inr ?pairs"
    by (rule all_dists_ok[OF assms(1) bc])
  show "list_all (\<lambda>e. torch_dist A q (snd e) = Inr (dist_value A q (snd e)) \<and>
                       dist_value A q (snd e) = norm2 A (map2 (fsub A) q (snd e)))
                  (entries s)"
    unfolding list_all_iff
  proof
    fix e assume "e \<in> set (entries s)"
    then obtain w i where mem: "(w, i) \<in> set (wv_dict s)" and e: "snd e = wv_arr s ! i"
      by (auto simp: entries_def)
    have len: "length q = length (snd e)"
      using dict_entry(3)[OF assms(1) mem] assms(2) e by simp
    then have "torch_dist A q (snd e) = Inr (dist_value A q (snd e))"
      by (intro torch_dist_value) (simp add: broadcastable_refl)
    moreover have "dist_value A q (snd e) = norm2 A (map2 (fsub A) q (snd e))"
      using len by (simp add: dist_value_def broadcast_map_same_length)
    ultimately show "torch_dist A q (snd e) = Inr (dist_value A q (snd e)) \<and>
                     dist_value A q (snd e) = norm2 A (map2 (fsub A) q (snd e))" ..
  qed
  show "closest A s q n = Inr (spec_nearestTo (dist_value A) s q n)"
    using assms(3)
    by (simp add: closest_ranked[OF assms(1) bc] slice_upto_nonneg spec_nearestTo_def)
  show "int (length (spec_nearestTo (dist_value A) s q n)) = min n (int (length (wv_dict s)))"
    using assms(3) by (simp add: spec_nearestTo_def length_spec_pairs)
  have srt: "sorted (map snd ?full)" by (rule sorted_sort_key)
  have "map snd (spec_nearestTo (dist_value A) s q n) = take (nat n) (map snd ?full)"
    by (simp add: spec_nearestTo_def take_map)
  with srt show "sorted (map snd (spec_nearestTo (dist_value A) s q n))"
    by (simp add: sorted_wrt_take)
  have "closest A s q (int (length (wv_dict s))) = Inr ?full"
    by (simp add: closest_ranked[OF assms(1) bc] slice_upto_nonneg length_spec_pairs)
  moreover have "spec_nearestTo (dist_value A) s q n = take (nat n) ?full"
    by (simp add: spec_nearestTo_def)
  moreover have "length ?full = length (wv_dict s)"
    by (simp add: length_spec_pairs)
  moreover have "set ?full = set ?pairs" by simp
  moreover have "\<forall>k. filter (\<lambda>t. snd t = k) ?full = filter (\<lambda>t. snd t = k) ?pairs"
    by (simp add: sort_key_stable)
  ultimately show "\<exists>full. closest A s q (int (length (wv_dict s))) = Inr full \<and>
                 spec_nearestTo (dist_value A) s q n = take (nat n) full \<and>
                 length full = length (wv_dict s) \<and>
                 set full = set ?pairs \<and>
                 sorted (map snd full) \<and>
                 (\<forall>k. filter (\<lambda>t. snd t = k) full = filter (\<lambda>t. snd t = k) ?pairs)"
    using srt by blast
next
  assume len: "length q' = length v'"
  then have "torch_dist exact q' v' = Inr (dist_value exact q' v')"
    by (intro torch_dist_value) (simp add: broadcastable_refl)
  with len show "torch_dist exact q' v' = Inr (spec_distance q' v')"
    by (simp add: dist_value_exact)
qed

theorem closest_refines_spec_witness:
  "wf_table fixture2 \<and> length [0 :: real, 0] = wv_size fixture2 \<and> (0 :: int) \<le> 3 \<and>
   closest exact fixture2 [0, 0] 3 = Inr [(''p'', 0), (''r'', 1), (''q'', 5)] \<and>
   spec_nearestTo (dist_value exact) fixture2 [0, 0] 3 = [(''p'', 0), (''r'', 1), (''q'', 5)] \<and>
   length [0 :: real, 0] = length [3 :: real, 4] \<and>
   torch_dist exact [0, 0] [3, 4] = Inr 5 \<and> spec_distance [0, 0] [3, 4] = 5"
proof -
  have l: "length [0 :: real, 0] = wv_size fixture2" by (simp add: fixture2_def)
  have n: "(0 :: int) \<le> 3" by simp
  have c: "closest exact fixture2 [0, 0] 3 = Inr [(''p'', 0), (''r'', 1), (''q'', 5)]"
    by (simp add: eval_defs fixture2_def)
  have d: "torch_dist exact [0, 0] [3, 4] = Inr 5"
    by (simp add: eval_defs)
  have l2: "length [0 :: real, 0] = length [3 :: real, 4]" by simp
  note t = closest_refines_spec[OF wf_fixture2 l n, of exact "[0, 0]" "[3, 4]"]
  from t c have "spec_nearestTo (dist_value exact) fixture2 [0, 0] 3 =
      [(''p'', 0), (''r'', 1), (''q'', 5)]" by simp
  moreover from t d l2 have "spec_distance [0, 0] [3, 4] = 5" by simp
  ultimately show ?thesis using wf_fixture2 l c d by simp
qed

text \<open>
  Without the bound on \<open>n\<close> the sentence fails: on the four-word fixture
  \<^verbatim>\<open>closest(d, -1)\<close> is the sorted list without its last entry, three
  entries, where the first \<open>-1\<close> entries are none and \<open>min(-1, 4)\<close> is no length.
\<close>

theorem closest_negative_counterexample:
  "wf_table fixture \<and> length [2 :: real] = wv_size fixture \<and>
   closest exact fixture [2] (- 1) = Inr [(''b'', 0), (''c'', 0), (''a'', 2)] \<and>
   spec_nearestTo (dist_value exact) fixture [2] (- 1) = [] \<and>
   int (length [(''b'', 0 :: real), (''c'', 0), (''a'', 2)]) \<noteq>
     min (- 1) (int (length (wv_dict fixture)))"
proof -
  have "closest exact fixture [2] (- 1) = Inr [(''b'', 0), (''c'', 0), (''a'', 2)]"
    by (simp add: eval_defs fixture_def)
  moreover have "spec_nearestTo (dist_value exact) fixture [2] (- 1) = []"
    by (simp add: spec_nearestTo_def)
  moreover have "length [2 :: real] = wv_size fixture" by (simp add: fixture_def)
  ultimately show ?thesis using wf_fixture by simp
qed







text \<open>
  C1 (amended). For every table and words \<open>w1\<close>, \<open>w2\<close>, \<open>w3\<close> present in it,
  \<open>analogy(w1, w2, w3, n, filterGiven=true)\<close> obtains the 10 nearest candidates of
  the query, whatever \<open>n\<close> is, removes every candidate equal to \<open>w1\<close>, \<open>w2\<close> or
  \<open>w3\<close>, slices the rest to \<open>n\<close>, and returns exactly \<open>n\<close> entries whenever
  \<open>0 \<le> n \<le> 7\<close> and the table has at least \<open>n + 3\<close> words; with
  \<open>filterGiven=false\<close> it returns the slice to \<open>n\<close> of the 10 nearest candidates,
  which for \<open>0 \<le> n \<le> 10\<close> is the plain \<open>n\<close> nearest neighbours of the query.
\<close>

theorem analogy_candidates:
  assumes "wf_table s"
    and "w1 \<in> set (vocabulary s)" and "w2 \<in> set (vocabulary s)" and "w3 \<in> set (vocabulary s)"
  shows "\<exists>q cands.
           analogy_query A s w1 w2 w3 = Inr q \<and> closest A s q 10 = Inr cands \<and>
           length cands = min 10 (length (wv_dict s)) \<and>
           analogy_words A s w1 w2 w3 n True =
             Inr (slice_upto (filter (\<lambda>t. fst t \<notin> set [w1, w2, w3]) cands) n) \<and>
           analogy_words A s w1 w2 w3 n False = Inr (slice_upto cands n) \<and>
           (0 \<le> n \<and> n \<le> 7 \<and> n + 3 \<le> int (length (wv_dict s)) \<longrightarrow>
              int (length (slice_upto (filter (\<lambda>t. fst t \<notin> set [w1, w2, w3]) cands) n)) = n) \<and>
           (0 \<le> n \<and> n \<le> 10 \<longrightarrow> analogy_words A s w1 w2 w3 n False = closest A s q n)"
proof -
  from analogy_words_ok[OF assms] obtain q cw where
    q: "analogy_query A s w1 w2 w3 = Inr q" and lq: "length q = wv_size s" and
    c: "closest A s q 10 = Inr cw" and
    a: "\<And>n fg. analogy_words A s w1 w2 w3 n fg =
           Inr (slice_upto (if fg then filter (\<lambda>t. fst t \<notin> set [w1, w2, w3]) cw else cw) n)"
    by blast
  let ?full = "sort_key snd (spec_pairs (dist_value A) s q)"
  have bc: "broadcastable (length q) (wv_size s)" by (simp add: lq broadcastable_refl)
  have cw: "cw = take 10 ?full"
    using c by (simp add: closest_ranked[OF assms(1) bc] slice_upto_def)
  have len: "length cw = min 10 (length (wv_dict s))"
    by (simp add: cw length_spec_pairs)
  have dist: "distinct (map fst cw)"
    unfolding cw by (rule distinct_ranked[OF assms(1)])
  have t: "analogy_words A s w1 w2 w3 n True =
             Inr (slice_upto (filter (\<lambda>t. fst t \<notin> set [w1, w2, w3]) cw) n)"
    by (simp add: a)
  have f: "analogy_words A s w1 w2 w3 n False = Inr (slice_upto cw n)"
    by (simp add: a)
  have exact: "int (length (slice_upto (filter (\<lambda>t. fst t \<notin> set [w1, w2, w3]) cw) n)) = n"
    if n: "0 \<le> n \<and> n \<le> 7 \<and> n + 3 \<le> int (length (wv_dict s))"
  proof -
    define k where "k = length (filter (\<lambda>t. fst t \<notin> set [w1, w2, w3]) cw)"
    have "length cw \<le> length (filter (\<lambda>t. fst t \<notin> set [w1, w2, w3]) cw) + length [w1, w2, w3]"
      by (rule length_filter_fst_notin[OF dist])
    then have "min 10 (length (wv_dict s)) \<le> k + 3"
      by (simp add: len k_def)
    with n have "nat n \<le> k" by linarith
    then have "nat n \<le> length (filter (\<lambda>t. fst t \<notin> set [w1, w2, w3]) cw)"
      by (simp only: k_def)
    with n show ?thesis by (simp add: slice_upto_nonneg)
  qed
  have plain: "analogy_words A s w1 w2 w3 n False = closest A s q n" if n: "0 \<le> n \<and> n \<le> 10"
  proof -
    from n have "nat n \<le> 10" by linarith
    then have "min (nat n) 10 = nat n" by (rule min_absorb1)
    then have "take (nat n) cw = take (nat n) ?full" by (simp add: cw)
    with n show ?thesis
      by (simp add: f closest_ranked[OF assms(1) bc] slice_upto_nonneg)
  qed
  from q c len t f exact plain show ?thesis by blast
qed

theorem analogy_candidates_witness:
  "wf_table fixture11 \<and> ''a'' \<in> set (vocabulary fixture11) \<and>
   ''b'' \<in> set (vocabulary fixture11) \<and> ''c'' \<in> set (vocabulary fixture11) \<and>
   (0 :: int) \<le> 7 \<and> (7 :: int) + 3 \<le> int (length (wv_dict fixture11)) \<and>
   (\<exists>r. analogy_words exact fixture11 ''a'' ''b'' ''c'' 7 True = Inr r \<and> int (length r) = 7) \<and>
   (\<exists>q. analogy_query exact fixture11 ''a'' ''b'' ''c'' = Inr q \<and>
        analogy_words exact fixture11 ''a'' ''b'' ''c'' 7 False = closest exact fixture11 q 7)"
proof -
  have v: "''a'' \<in> set (vocabulary fixture11)" "''b'' \<in> set (vocabulary fixture11)"
    "''c'' \<in> set (vocabulary fixture11)"
    by (simp_all add: vocabulary_def fixture11_def)
  have n: "(0 :: int) \<le> 7 \<and> (7 :: int) \<le> 7 \<and> (7 :: int) + 3 \<le> int (length (wv_dict fixture11))"
    "(0 :: int) \<le> 7 \<and> (7 :: int) \<le> 10"
    by (simp_all add: fixture11_def)
  from analogy_candidates[OF wf_fixture11 v, of exact 7] n
  have "(\<exists>r. analogy_words exact fixture11 ''a'' ''b'' ''c'' 7 True = Inr r \<and> int (length r) = 7) \<and>
   (\<exists>q. analogy_query exact fixture11 ''a'' ''b'' ''c'' = Inr q \<and>
        analogy_words exact fixture11 ''a'' ''b'' ''c'' 7 False = closest exact fixture11 q 7)"
    by metis
  with wf_fixture11 v n show ?thesis by blast
qed

text \<open>
  The spec's sentence, \<open>n + 3\<close> candidates and exactly \<open>n\<close> entries on a table
  of at least \<open>n + 3\<close> words, fails on the eleven-word fixture at \<open>n = 8\<close>: the
  ten candidates leave seven entries after the three given words are removed. Without
  the filter, \<open>n = 11\<close> gives the ten candidates, not the eleven nearest neighbours.
\<close>

theorem analogy_candidates_counterexample:
  "wf_table fixture11 \<and> ''a'' \<in> set (vocabulary fixture11) \<and>
   ''b'' \<in> set (vocabulary fixture11) \<and> ''c'' \<in> set (vocabulary fixture11) \<and>
   (8 :: int) + 3 \<le> int (length (wv_dict fixture11)) \<and>
   analogy_words exact fixture11 ''a'' ''b'' ''c'' 8 True =
     Inr [(''d'', 0), (''e'', 1), (''f'', 2), (''g'', 3), (''h'', 4), (''i'', 5), (''j'', 6)] \<and>
   int (length [(''d'', 0 :: real), (''e'', 1), (''f'', 2), (''g'', 3), (''h'', 4), (''i'', 5),
                (''j'', 6)]) \<noteq> 8 \<and>
   analogy_query exact fixture11 ''a'' ''b'' ''c'' = Inr [3] \<and>
   analogy_words exact fixture11 ''a'' ''b'' ''c'' 11 False \<noteq> closest exact fixture11 [3] 11"
proof -
  have v: "''a'' \<in> set (vocabulary fixture11)" "''b'' \<in> set (vocabulary fixture11)"
    "''c'' \<in> set (vocabulary fixture11)"
    by (simp_all add: vocabulary_def fixture11_def)
  have n: "(8 :: int) + 3 \<le> int (length (wv_dict fixture11))"
    by (simp add: fixture11_def)
  have t: "analogy_words exact fixture11 ''a'' ''b'' ''c'' 8 True =
     Inr [(''d'', 0), (''e'', 1), (''f'', 2), (''g'', 3), (''h'', 4), (''i'', 5), (''j'', 6)]"
    by (simp add: eval_defs fixture11_def)
  have q: "analogy_query exact fixture11 ''a'' ''b'' ''c'' = Inr [3]"
    by (simp add: eval_defs fixture11_def)
  have f: "analogy_words exact fixture11 ''a'' ''b'' ''c'' 11 False =
     Inr [(''d'', 0), (''c'', 1), (''e'', 1), (''b'', 2), (''f'', 2), (''a'', 3), (''g'', 3),
          (''h'', 4), (''i'', 5), (''j'', 6)]"
    by (simp add: eval_defs fixture11_def)
  have c: "closest exact fixture11 [3] 11 =
     Inr [(''d'', 0), (''c'', 1), (''e'', 1), (''b'', 2), (''f'', 2), (''a'', 3), (''g'', 3),
          (''h'', 4), (''i'', 5), (''j'', 6), (''k'', 7)]"
    by (simp add: eval_defs fixture11_def)
  have "analogy_words exact fixture11 ''a'' ''b'' ''c'' 11 False \<noteq> closest exact fixture11 [3] 11"
    by (simp add: f c)
  with wf_fixture11 v n t q show ?thesis by simp
qed

end
